theory Spec2Isabelle
  imports Main
begin

section \<open>JavaScript values used by the WebSocket client registry\<close>

text \<open>
  Attribute values have the TypeScript type \<open>any\<close>. The registry only ever applies
  \<open>!\<close> to them, so the model keeps the kinds of value whose truthiness differs:
  \<open>undefined\<close>, \<open>null\<close>, booleans, numbers (integers and \<open>NaN\<close>), strings and
  object references. \<open>truthy\<close> is JavaScript's \<open>ToBoolean\<close>.
\<close>

datatype jsval =
    JUndefined
  | JNull
  | JBoolean bool
  | JNumber int
  | JNaN
  | JString string
  | JObject nat

fun truthy :: "jsval \<Rightarrow> bool" where
  "truthy JUndefined = False"
| "truthy JNull = False"
| "truthy (JBoolean b) = b"
| "truthy (JNumber n) = (n \<noteq> 0)"
| "truthy JNaN = False"
| "truthy (JString s) = (s \<noteq> [])"
| "truthy (JObject a) = True"

text \<open>
  A message is \<open>string | ArrayBufferLike | Blob | ArrayBufferView\<close>: a text or a
  binary object. Of these only the empty string is falsy.
\<close>

datatype payload = Text string | Binary "nat list"

fun payload_truthy :: "payload \<Rightarrow> bool" where
  "payload_truthy (Text t) = (t \<noteq> [])"
| "payload_truthy (Binary b) = True"

text \<open>
  \<open>a || b\<close> for an optional array parameter (an array is truthy, the empty one
  too, so only a missing argument falls through) and for an optional message.
\<close>

fun or_array :: "'a list option \<Rightarrow> 'a list \<Rightarrow> 'a list" where
  "or_array (Some xs) d = xs"
| "or_array None d = d"

fun or_payload :: "payload option \<Rightarrow> payload \<Rightarrow> payload" where
  "or_payload (Some m) d = (if payload_truthy m then m else d)"
| "or_payload None d = d"

text \<open>
  A number that counts up from 0 is an IEEE 754 double: \<open>n + 1\<close> is exact while
  \<open>n < 2 ^ 53\<close>, and \<open>2 ^ 53 + 1\<close> rounds back to \<open>2 ^ 53\<close> (ties to even), so the
  postfix \<open>++\<close> leaves a counter that has reached \<open>2 ^ 53\<close> where it is.
\<close>

definition js_incr :: "nat \<Rightarrow> nat" where
  "js_incr n = (if n < 2 ^ 53 then n + 1 else n)"

subsection \<open>Objects with number keys\<close>

text \<open>
  \<open>WebSocketClient.list\<close> is an object indexed by client id. It is modelled as an
  association list kept in ascending key order, the order in which
  \<open>Object.keys\<close> and \<open>Object.values\<close> enumerate integer keys (ids are also
  inserted in ascending order).
\<close>

fun obj_set :: "nat \<Rightarrow> 'v \<Rightarrow> (nat \<times> 'v) list \<Rightarrow> (nat \<times> 'v) list" where
  "obj_set k v [] = [(k, v)]"
| "obj_set k v ((k', v') # xs) =
     (if k = k' then (k, v) # xs
      else if k < k' then (k, v) # (k', v') # xs
      else (k', v') # obj_set k v xs)"

definition obj_get :: "(nat \<times> 'v) list \<Rightarrow> nat \<Rightarrow> 'v option" where
  "obj_get obj k = map_of obj k"

definition obj_delete :: "nat \<Rightarrow> (nat \<times> 'v) list \<Rightarrow> (nat \<times> 'v) list" where
  "obj_delete k obj = filter (\<lambda>kv. fst kv \<noteq> k) obj"

definition Object_keys :: "('k \<times> 'v) list \<Rightarrow> 'k list" where
  "Object_keys obj = map fst obj"

definition Object_values :: "('k \<times> 'v) list \<Rightarrow> 'v list" where
  "Object_values obj = map snd obj"

section \<open>WebSocketClient\<close>

text \<open>
  Clients are objects: the registry, the \<open>#to\<close> arrays and the arguments of
  \<open>send\<close> hold references to them. A reference is a heap address; the heap maps
  every address to a client, addresses from \<open>nextRef\<close> on being unallocated.
  A private field \<open>#x\<close> of the class is the record field \<open>x_p\<close>.
\<close>

type_synonym ref = nat

record WebSocketClient =
  variables :: "(string \<times> string) list"
  id_p :: nat
  attributes_p :: "string \<rightharpoonup> jsval"
  webSocket_p :: nat
  url_p :: string
  message_p :: payload
  to_p :: "ref list"

text \<open>
  The platform's sockets. \<open>webSocket_p\<close> is a socket handle; \<open>readyState\<close> gives
  the state of each socket and \<open>writes\<close> records every call of
  \<open>WebSocket.send\<close>, in order, with the handle and the data. In Deno
  \<open>WebSocket.send\<close> throws an \<open>InvalidStateError\<close> when the socket is not open
  (the WHATWG standard requires it in state \<open>CONNECTING\<close>).
\<close>

datatype ready_state = CONNECTING | OPEN | CLOSING | CLOSED

datatype exn = InvalidStateError

record state =
  lastInsertedId :: nat
  list_static :: "(nat \<times> ref) list"
  heap :: "ref \<Rightarrow> WebSocketClient"
  nextRef :: ref
  readyState :: "nat \<Rightarrow> ready_state"
  writes :: "(nat \<times> payload) list"

definition WebSocket_send :: "nat \<Rightarrow> payload \<Rightarrow> state \<Rightarrow> exn option \<times> state" where
  "WebSocket_send h data s =
     (let s' = s\<lparr>writes := writes s @ [(h, data)]\<rparr>
      in if readyState s h = OPEN then (None, s') else (Some InvalidStateError, s'))"

text \<open>The state of a fresh process: counter 0, empty registry, no object, no socket open.\<close>

definition blank :: WebSocketClient where
  "blank = \<lparr>variables = [], id_p = 0, attributes_p = Map.empty, webSocket_p = 0,
            url_p = [], message_p = Text [], to_p = []\<rparr>"

definition init :: state where
  "init = \<lparr>lastInsertedId = 0, list_static = [], heap = (\<lambda>r. blank), nextRef = 0,
           readyState = (\<lambda>h. CLOSED), writes = []\<rparr>"

text \<open>The transport opens or closes a socket.\<close>

definition set_readyState :: "nat \<Rightarrow> ready_state \<Rightarrow> state \<Rightarrow> state" where
  "set_readyState h r s = s\<lparr>readyState := (readyState s)(h := r)\<rparr>"

subsection \<open>Construction and the registry\<close>

text \<open>\<open>new WebSocketClient(webSocket, url, variables)\<close>: returns the new object's reference.\<close>

definition construct :: "nat \<Rightarrow> string \<Rightarrow> (string \<times> string) list \<Rightarrow> state \<Rightarrow> ref \<times> state" where
  "construct webSocket url vars s =
     (let this = nextRef s;
          i = lastInsertedId s
      in (this,
          s\<lparr>lastInsertedId := js_incr i,
            heap := (heap s)(this :=
              \<lparr>variables = vars, id_p = i, attributes_p = Map.empty,
               webSocket_p = webSocket, url_p = url, message_p = Text [], to_p = []\<rparr>),
            nextRef := Suc this,
            list_static := obj_set i this (list_static s)\<rparr>))"

definition concurrentConnections :: "state \<Rightarrow> nat" where
  "concurrentConnections s = length (Object_keys (list_static s))"

definition getClientById :: "nat \<Rightarrow> state \<Rightarrow> ref option" where
  "getClientById i s = obj_get (list_static s) i"

definition getAllClients :: "state \<Rightarrow> ref list" where
  "getAllClients s = Object_values (list_static s)"

text \<open>
  Modelled from the spec: \<open>unregister(id)\<close>, which the server runs when a socket
  closes and which is not part of the class: "removes the entry; removing an
  absent id is a no-op, not an error".
\<close>

definition unregister :: "nat \<Rightarrow> state \<Rightarrow> state" where
  "unregister i s = s\<lparr>list_static := obj_delete i (list_static s)\<rparr>"

subsection \<open>Attributes\<close>

definition getAttribute :: "ref \<Rightarrow> string \<Rightarrow> state \<Rightarrow> jsval" where
  "getAttribute this key s =
     (case attributes_p (heap s this) key of None \<Rightarrow> JUndefined | Some v \<Rightarrow> v)"

text \<open>
  \<open>object[key] = v\<close> on an object with string keys, in the order of insertion.
\<close>

fun obj_put :: "string \<Rightarrow> jsval \<Rightarrow> (string \<times> jsval) list \<Rightarrow> (string \<times> jsval) list" where
  "obj_put k v [] = [(k, v)]"
| "obj_put k v ((k', v') # obj) = (if k = k' then (k, v) # obj else (k', v') # obj_put k v obj)"

definition getAttributes :: "ref \<Rightarrow> string list \<Rightarrow> state \<Rightarrow> (string \<times> jsval) list" where
  "getAttributes this keys s =
     fold (\<lambda>key attributes. obj_put key (getAttribute this key s) attributes) keys []"

text \<open>
  \<open>setAttribute\<close> and \<open>setAttributes\<close> return the client's own map, which is
  \<open>attributes_p\<close> of the client in the state they leave.
\<close>

definition setAttribute :: "ref \<Rightarrow> string \<Rightarrow> jsval \<Rightarrow> state \<Rightarrow> state" where
  "setAttribute this key v s =
     s\<lparr>heap := (heap s)(this :=
        (heap s this)\<lparr>attributes_p := (attributes_p (heap s this))(key \<mapsto> v)\<rparr>)\<rparr>"

text \<open>\<open>attributes[key]\<close> on an attribute object: \<open>undefined\<close> for a key it does not have.\<close>

definition obj_index :: "(string \<times> jsval) list \<Rightarrow> string \<Rightarrow> jsval" where
  "obj_index obj key = (case map_of obj key of None \<Rightarrow> JUndefined | Some v \<Rightarrow> v)"

definition setAttributes :: "ref \<Rightarrow> (string \<times> jsval) list \<Rightarrow> state \<Rightarrow> state" where
  "setAttributes this attrs s =
     fold (\<lambda>key. setAttribute this key (obj_index attrs key)) (Object_keys attrs) s"

definition removeAttribute :: "ref \<Rightarrow> string \<Rightarrow> state \<Rightarrow> jsval \<times> state" where
  "removeAttribute this key s =
     (let removedAttribute = getAttribute this key s
      in (removedAttribute,
          s\<lparr>heap := (heap s)(this :=
             (heap s this)\<lparr>attributes_p := (attributes_p (heap s this))(key := None)\<rparr>)\<rparr>))"

text \<open>
  \<open>removeAttributes(...keys)\<close>: the \<open>forEach\<close> removes key after key and
  collects what it removed in a new object, which the method returns.
\<close>

fun removeAttributes_loop ::
  "ref \<Rightarrow> string list \<Rightarrow> (string \<times> jsval) list \<Rightarrow> state \<Rightarrow> (string \<times> jsval) list \<times> state" where
  "removeAttributes_loop this [] removedAttributes s = (removedAttributes, s)"
| "removeAttributes_loop this (key # keys) removedAttributes s =
     (case removeAttribute this key s of
        (v, s') \<Rightarrow> removeAttributes_loop this keys (obj_put key v removedAttributes) s')"

definition removeAttributes :: "ref \<Rightarrow> string list \<Rightarrow> state \<Rightarrow> (string \<times> jsval) list \<times> state" where
  "removeAttributes this keys s = removeAttributes_loop this keys [] s"

text \<open>
  \<open>getClientsByAttribute(...attributes)\<close>: each attribute set is an object, of
  which the code reads the keys only.
\<close>

definition getClientsByAttribute :: "(string \<times> jsval) list list \<Rightarrow> state \<Rightarrow> ref list" where
  "getClientsByAttribute attributes s =
     (let allClients = Object_values (list_static s)
      in filter (\<lambda>client.
           length (filter (\<lambda>attribute.
             length (filter (\<lambda>key. \<not> truthy (getAttribute client key s))
                       (Object_keys attribute)) = 0)
             attributes) \<noteq> 0)
           allClients)"

subsection \<open>Messages\<close>

definition setMessage :: "ref \<Rightarrow> payload \<Rightarrow> state \<Rightarrow> state" where
  "setMessage this message s =
     s\<lparr>heap := (heap s)(this := (heap s this)\<lparr>message_p := message\<rparr>)\<rparr>"

definition to :: "ref \<Rightarrow> ref list \<Rightarrow> state \<Rightarrow> state" where
  "to this clients s =
     s\<lparr>heap := (heap s)(this := (heap s this)\<lparr>to_p := clients\<rparr>)\<rparr>"

text \<open>
  The static \<open>send\<close>: \<open>clients.forEach(client => client.webSocket.send(message))\<close>.
  Nothing catches what \<open>WebSocket.send\<close> throws, so the exception leaves
  \<open>forEach\<close> and ends the loop. The result is the exception, if any, and the
  state reached.
\<close>

fun send_static :: "ref list \<Rightarrow> payload \<Rightarrow> state \<Rightarrow> exn option \<times> state" where
  "send_static [] message s = (None, s)"
| "send_static (client # clients) message s =
     (case WebSocket_send (webSocket_p (heap s client)) message s of
        (Some e, s') \<Rightarrow> (Some e, s')
      | (None, s') \<Rightarrow> send_static clients message s')"

text \<open>
  For stating what a \<open>send\<close> does: \<open>accepts\<close>, the client's socket is open, so
  that a write to it returns; \<open>attempted\<close>, the targets up to and including the
  first whose socket is not open; \<open>frames\<close>, one write of the message per
  target, on the target's socket.
\<close>

definition accepts :: "state \<Rightarrow> ref \<Rightarrow> bool" where
  "accepts s client = (readyState s (webSocket_p (heap s client)) = OPEN)"

definition attempted :: "state \<Rightarrow> ref list \<Rightarrow> ref list" where
  "attempted s clients =
     takeWhile (accepts s) clients @ take 1 (dropWhile (accepts s) clients)"

definition frames :: "state \<Rightarrow> ref list \<Rightarrow> payload \<Rightarrow> (nat \<times> payload) list" where
  "frames s clients message = map (\<lambda>client. (webSocket_p (heap s client), message)) clients"

definition send :: "ref \<Rightarrow> ref list option \<Rightarrow> payload option \<Rightarrow> state \<Rightarrow> exn option \<times> state" where
  "send this clients message s =
     send_static (or_array clients (to_p (heap s this)))
                 (or_payload message (message_p (heap s this))) s"

definition reply :: "ref \<Rightarrow> payload option \<Rightarrow> state \<Rightarrow> exn option \<times> state" where
  "reply this message s = send this (Some [this]) message s"

definition sendAll :: "payload \<Rightarrow> state \<Rightarrow> exn option \<times> state" where
  "sendAll message s = send_static (getAllClients s) message s"

subsection \<open>Runs of the registry\<close>

text \<open>
  What a program can do with the class, one call at a time; \<open>SocketState\<close> is
  the transport changing a socket. An exception thrown by a \<open>send\<close> is dropped
  here: the state it leaves is the state the next call finds.
\<close>

datatype event =
    Construct nat string "(string \<times> string) list"
  | Unregister nat
  | SetAttribute ref string jsval
  | SetAttributes ref "(string \<times> jsval) list"
  | RemoveAttribute ref string
  | RemoveAttributes ref "string list"
  | SetMessage ref payload
  | To ref "ref list"
  | Reply ref "payload option"
  | SendStatic "ref list" payload
  | SendMethod ref "ref list option" "payload option"
  | SendAll payload
  | SocketState nat ready_state

fun step :: "event \<Rightarrow> state \<Rightarrow> state" where
  "step (Construct webSocket url vars) s = snd (construct webSocket url vars s)"
| "step (Unregister i) s = unregister i s"
| "step (SetAttribute this key v) s = setAttribute this key v s"
| "step (SetAttributes this attrs) s = setAttributes this attrs s"
| "step (RemoveAttribute this key) s = snd (removeAttribute this key s)"
| "step (RemoveAttributes this keys) s = snd (removeAttributes this keys s)"
| "step (SetMessage this message) s = setMessage this message s"
| "step (To this clients) s = to this clients s"
| "step (Reply this message) s = snd (reply this message s)"
| "step (SendStatic clients message) s = snd (send_static clients message s)"
| "step (SendMethod this clients message) s = snd (send this clients message s)"
| "step (SendAll message) s = snd (sendAll message s)"
| "step (SocketState h r) s = set_readyState h r s"

definition run :: "event list \<Rightarrow> state \<Rightarrow> state" where
  "run evs s = fold step evs s"

text \<open>The clients constructed during a run, in the order of their construction.\<close>

fun constructed :: "event list \<Rightarrow> state \<Rightarrow> ref list" where
  "constructed [] s = []"
| "constructed (Construct webSocket url vars # evs) s =
     fst (construct webSocket url vars s) # constructed evs (step (Construct webSocket url vars) s)"
| "constructed (e # evs) s = constructed evs (step e s)"

fun is_Construct :: "event \<Rightarrow> bool" where
  "is_Construct (Construct webSocket url vars) = True"
| "is_Construct e = False"

text \<open>The getter \<open>id\<close> of each client constructed during a run, read when the run is over.\<close>

definition ids_constructed :: "event list \<Rightarrow> state \<Rightarrow> nat list" where
  "ids_constructed evs s = map (\<lambda>c. id_p (heap (run evs s) c)) (constructed evs s)"

text \<open>
  In the states a process reaches every registered client is an allocated
  object and is registered under one key only.
\<close>

definition registered_once :: "state \<Rightarrow> bool" where
  "registered_once s =
     (list_all (\<lambda>client. client < nextRef s) (getAllClients s) \<and> distinct (getAllClients s))"

text \<open>
  An example: three clients; the first sets \<open>{a: 1, b: 2}\<close>, the second \<open>a = 1\<close>,
  the third \<open>b = 2\<close> and \<open>a = 0\<close>.
\<close>

definition three_clients :: state where
  "three_clients =
     run [Construct 7 ''/ws'' [], Construct 8 ''/ws'' [], Construct 9 ''/ws'' [],
          SetAttributes 0 [(''a'', JNumber 1), (''b'', JNumber 2)],
          SetAttribute 1 ''a'' (JNumber 1),
          SetAttribute 2 ''b'' (JNumber 2),
          SetAttribute 2 ''a'' (JNumber 0)] init"

section \<open>Routes\<close>

text \<open>
  The class \<open>Route\<close> (\<open>Router.ts\<close>) is not among the sources; its tests are. The
  route table is therefore modelled from the spec, and compared with the tests
  further down.
\<close>

datatype http_method = GET | PUT | POST | DELETE | PATCH

text \<open>
  Modelled from the spec: a RouteEntry, "a canonical path, a set of alias
  match-keys (URLs), and up to five handler slots (one per HTTP method)". The
  match keys are a list without repetition, as the tests compare arrays; a
  handler is a reference of type \<open>'h\<close>.
\<close>

record 'h RouteEntry =
  canonicalPath :: string
  matchKeys :: "string list"
  handlers :: "http_method \<Rightarrow> 'h option"

text \<open>
  Modelled from the spec: the RouteTable, "byPath: keyed by canonical path" and
  "byMatchKey: derived, rebuilt/patched on every insertion".
\<close>

record 'h RouteTable =
  byPath :: "string \<rightharpoonup> 'h RouteEntry"
  byMatchKey :: "string \<rightharpoonup> 'h RouteEntry"

text \<open>Modelled from the spec: the table before any registration.\<close>

definition empty_table :: "'h RouteTable" where
  "empty_table = \<lparr>byPath = Map.empty, byMatchKey = Map.empty\<rparr>"

text \<open>
  Modelled from the spec: "deduplicated" (step 1 of register). The first
  occurrence of each key stays, in the order given.
\<close>

definition dedup :: "'a list \<Rightarrow> 'a list" where
  "dedup xs = rev (remdups (rev xs))"

text \<open>
  Modelled from the spec: a key is "already present in byMatchKey pointing to a
  different entry" (step 2 of register); entries are identified by their
  canonical path.
\<close>

definition owned_by_other :: "'h RouteTable \<Rightarrow> string \<Rightarrow> string \<Rightarrow> bool" where
  "owned_by_other tbl path k =
     (case byMatchKey tbl k of None \<Rightarrow> False | Some e \<Rightarrow> canonicalPath e \<noteq> path)"

text \<open>
  Modelled from the spec: \<open>register(path, aliasURLs, handlers...)\<close>, in the
  spec's three steps: "1. Build the candidate match-key set = aliasURLs \<union>
  {canonicalPath}, deduplicated. 2. For each candidate key already present in
  byMatchKey pointing to a different entry, remove it from the candidate set and
  emit a non-fatal warning identifying the conflicting path. 3. Store the
  resulting RouteEntry at byPath[canonicalPath] (overwriting any prior entry at
  that path), and add each surviving key into byMatchKey." Step 2 removes
  aliases only: of the match keys the spec says "always includes
  canonicalPath itself" and that "the new entry keeps only its unclaimed keys
  plus its own canonical path". The result is the entry, the keys warned about
  and the new table.
\<close>

definition register ::
  "string \<Rightarrow> string list \<Rightarrow> (http_method \<Rightarrow> 'h option) \<Rightarrow> 'h RouteTable
   \<Rightarrow> 'h RouteEntry \<times> string list \<times> 'h RouteTable" where
  "register path aliasURLs hs tbl =
     (let candidate = dedup (aliasURLs @ [path]);
          warned = filter (\<lambda>k. k \<noteq> path \<and> owned_by_other tbl path k) candidate;
          kept = filter (\<lambda>k. k = path \<or> \<not> owned_by_other tbl path k) candidate;
          entry = \<lparr>canonicalPath = path, matchKeys = kept, handlers = hs\<rparr>
      in (entry, warned,
          \<lparr>byPath = (byPath tbl)(path \<mapsto> entry),
           byMatchKey = fold (\<lambda>k m. m(k \<mapsto> entry)) kept (byMatchKey tbl)\<rparr>))"

text \<open>
  Modelled from the spec: \<open>resolve(requestPath)\<close>, "exact-match lookup against
  byMatchKey"; not-found is \<open>None\<close>.
\<close>

definition resolve :: "string \<Rightarrow> 'h RouteTable \<Rightarrow> 'h RouteEntry option" where
  "resolve requestPath tbl = byMatchKey tbl requestPath"

text \<open>Modelled from the spec: the getter \<open>URL()\<close> of a route, its match keys.\<close>

definition URL :: "'h RouteEntry \<Rightarrow> string list" where
  "URL r = matchKeys r"

text \<open>
  The tests' routes (\<open>Route_Test.ts\<close>): every route there is made with the
  five handlers \<open>get, pos, put, del, pat\<close>, here the references 1 to 5. The
  test of \<open>getUniqueUrlArray\<close> makes \<open>/unique1.html\<close> and then
  \<open>/unique2.html\<close>, whose first alias the first route owns. The routes that
  the tests make before these two own none of the keys involved, so the table
  is taken empty.
\<close>

fun test_handlers :: "http_method \<Rightarrow> nat option" where
  "test_handlers GET = Some 1"
| "test_handlers POST = Some 2"
| "test_handlers PUT = Some 3"
| "test_handlers DELETE = Some 4"
| "test_handlers PATCH = Some 5"



text \<open>
  The spec's scenario: \<open>/a.html\<close> with the alias \<open>/shared\<close>, then \<open>/b.html\<close>
  with the aliases \<open>/shared\<close> and \<open>/b2\<close>.
\<close>

definition route_a :: "nat RouteEntry \<times> string list \<times> nat RouteTable" where
  "route_a = register ''/a.html'' [''/shared''] test_handlers empty_table"

definition route_b :: "nat RouteEntry \<times> string list \<times> nat RouteTable" where
  "route_b = register ''/b.html'' [''/shared'', ''/b2''] test_handlers (snd (snd route_a))"


section \<open>SystemResponse\<close>

text \<open>
  \<open>body\<close> is \<open>string | ReadableStream<Uint8Array> | Uint8Array | undefined\<close>. The
  \<open>Headers\<close> object is a list of name and value pairs; \<open>set\<close> replaces the values
  of a name and \<open>append\<close> adds one.
\<close>

datatype body = BodyText string | BodyStream nat | BodyBytes "nat list" | BodyUndefined

definition headers_set :: "string \<Rightarrow> string \<Rightarrow> (string \<times> string) list \<Rightarrow> (string \<times> string) list" where
  "headers_set name v hs = filter (\<lambda>nv. fst nv \<noteq> name) hs @ [(name, v)]"

definition headers_append :: "string \<Rightarrow> string \<Rightarrow> (string \<times> string) list \<Rightarrow> (string \<times> string) list" where
  "headers_append name v hs = hs @ [(name, v)]"

text \<open>What \<open>new Response(body, init)\<close> holds: the body and a copy of the init's parts.\<close>

record Response =
  res_body :: body
  res_status :: "int option"
  res_statusText :: "string option"
  res_headers :: "(string \<times> string) list"

record Cookie =
  cookie_name :: string
  cookie_value :: string
  cookie_expires :: "int option"
  cookie_path :: "string option"
  cookie_domain :: "string option"

text \<open>
  The functions that \<open>SystemResponse\<close> imports and the sources do not hold are
  parameters of the model: \<open>assignToVariables\<close> and \<open>lookup\<close> of \<open>mod.ts\<close>, the
  platform's \<open>encodeURIComponent\<close>, the text that the standard library's
  \<open>setCookie\<close> makes of a cookie, and \<open>Response_throws\<close>, the bodies, statuses
  and status texts that the platform's \<open>new Response(body, init)\<close> refuses with
  an exception (a status outside 200 to 599, for one).
\<close>

record env =
  assignToVariables :: "string \<Rightarrow> (string \<times> jsval) list \<Rightarrow> string option \<Rightarrow> string"
  lookup :: "string \<Rightarrow> string option"
  encodeURIComponent :: "string \<Rightarrow> string"
  cookie_toString :: "Cookie \<Rightarrow> string"
  Response_throws :: "body \<Rightarrow> int option \<Rightarrow> string option \<Rightarrow> bool"

text \<open>
  The fields of the class (\<open>init.headers\<close> is the object \<open>headers\<close> itself, so
  \<open>init\<close> adds \<open>init_status\<close> and \<open>init_statusText\<close>), and two observations that
  are not fields: \<open>respondWith_calls\<close>, the responses that \<open>#respondWith\<close> has been
  called with, and \<open>suspended\<close>, the number of calls of the asynchronous \<open>send\<close>
  that wait at \<open>await this.#respondWith(res)\<close>.
\<close>

record SystemResponse =
  responded_p :: bool
  preset_p :: "(string \<times> jsval) list"
  init_status :: "int option"
  init_statusText :: "string option"
  headers :: "(string \<times> string) list"
  status :: int
  body :: body
  isForceDownload :: bool
  respondWith_calls :: "Response list"
  suspended :: nat

definition setType :: "string \<Rightarrow> SystemResponse \<Rightarrow> SystemResponse" where
  "setType type sr = sr\<lparr>headers := headers_set ''Content-Type'' type (headers sr)\<rparr>"

text \<open>\<open>setText(text, status = 200, filePath?)\<close>.\<close>

definition setText ::
  "env \<Rightarrow> body \<Rightarrow> int option \<Rightarrow> string option \<Rightarrow> SystemResponse \<Rightarrow> SystemResponse" where
  "setText E text st filePath sr =
     (let b = (case text of
                 BodyText t \<Rightarrow> BodyText (assignToVariables E t (preset_p sr) filePath)
               | _ \<Rightarrow> text)
      in sr\<lparr>body := b, status := (case st of None \<Rightarrow> 200 | Some n \<Rightarrow> n)\<rparr>)"

text \<open>
  \<open>setFile(filePath, status?)\<close>. Reading the file is the platform's work: its
  outcome is the argument \<open>file_data\<close>, \<open>None\<close> when the read throws (the method
  then only logs a warning). The fields are written after the last \<open>await\<close>.
\<close>

definition setFile ::
  "env \<Rightarrow> string \<Rightarrow> int option \<Rightarrow> body option \<Rightarrow> SystemResponse \<Rightarrow> SystemResponse" where
  "setFile E filePath st file_data sr =
     (case file_data of
        None \<Rightarrow> sr
      | Some d \<Rightarrow>
          (let sr1 = setText E d st (Some filePath) sr
           in case lookup E filePath of
                None \<Rightarrow> sr1
              | Some extensions \<Rightarrow> if extensions \<noteq> [] then setType extensions sr1 else sr1))"

definition preset :: "(string \<times> jsval) list \<Rightarrow> SystemResponse \<Rightarrow> SystemResponse" where
  "preset object sr = sr\<lparr>preset_p := object\<rparr>"

text \<open>The standard library's \<open>setCookie\<close> appends a header unless the cookie's text is empty.\<close>

definition setCookie :: "env \<Rightarrow> Cookie \<Rightarrow> SystemResponse \<Rightarrow> SystemResponse" where
  "setCookie E cookie sr =
     (let v = cookie_toString E cookie
      in if v \<noteq> [] then sr\<lparr>headers := headers_append ''Set-Cookie'' v (headers sr)\<rparr> else sr)"

definition deleteCookie ::
  "env \<Rightarrow> string \<Rightarrow> string option \<Rightarrow> string option \<Rightarrow> SystemResponse \<Rightarrow> SystemResponse" where
  "deleteCookie E name path domain sr =
     setCookie E \<lparr>cookie_name = name, cookie_value = [], cookie_expires = Some 0,
                  cookie_path = path, cookie_domain = domain\<rparr> sr"

definition new_Response :: "body \<Rightarrow> SystemResponse \<Rightarrow> Response" where
  "new_Response b sr =
     \<lparr>res_body = b, res_status = init_status sr, res_statusText = init_statusText sr,
      res_headers = headers sr\<rparr>"

text \<open>
  \<open>send(response?)\<close> is asynchronous. \<open>send_call\<close> is the part that runs at the
  call, up to the \<open>await\<close>, with its outcome: it returns at once when
  \<open>#responded\<close> is set (\<open>Returned\<close>); it ends with the exception of
  \<open>new Response\<close>, if there is one (\<open>Thrown\<close>); otherwise it calls
  \<open>#respondWith\<close> and suspends (\<open>Awaiting\<close>). \<open>send_fulfilled\<close> is the rest,
  run when the awaited promise is fulfilled; \<open>send_rejected\<close> is what happens
  when it is rejected (the exception leaves \<open>send\<close> before the flag is set).
\<close>

datatype send_outcome = Returned | Thrown | Awaiting

definition send_call ::
  "env \<Rightarrow> (string + Response) option \<Rightarrow> SystemResponse \<Rightarrow> send_outcome \<times> SystemResponse" where
  "send_call E response sr =
     (if responded_p sr then (Returned, sr)
      else
        (let sr1 = (if isForceDownload sr
                    then sr\<lparr>headers := headers_set ''Content-Type'' ''application/octet-stream'' (headers sr)\<rparr>
                    else sr);
             sr2 = sr1\<lparr>init_status := Some (status sr1)\<rparr>;
             sr3 = (case init_statusText sr2 of
                      None \<Rightarrow> sr2
                    | Some t \<Rightarrow> if t \<noteq> [] then sr2\<lparr>init_statusText := Some (encodeURIComponent E t)\<rparr> else sr2)
         in if Response_throws E (body sr3) (init_status sr3) (init_statusText sr3) then (Thrown, sr3)
            else
              (let res = new_Response (body sr3) sr3;
                   sr4 = (case response of Some (Inl str) \<Rightarrow> setText E (BodyText str) None None sr3 | _ \<Rightarrow> sr3);
                   res' = (case response of Some (Inr r) \<Rightarrow> r | _ \<Rightarrow> res)
               in (Awaiting,
                   sr4\<lparr>respondWith_calls := respondWith_calls sr4 @ [res'],
                       suspended := Suc (suspended sr4)\<rparr>))))"

definition send_fulfilled :: "SystemResponse \<Rightarrow> SystemResponse" where
  "send_fulfilled sr =
     (if suspended sr = 0 then sr else sr\<lparr>responded_p := True, suspended := suspended sr - 1\<rparr>)"

definition send_rejected :: "SystemResponse \<Rightarrow> SystemResponse" where
  "send_rejected sr = (if suspended sr = 0 then sr else sr\<lparr>suspended := suspended sr - 1\<rparr>)"

text \<open>
  \<open>redirect(url)\<close> calls \<open>send\<close> and does not wait for it; what the call throws
  or is rejected with goes to the promise that \<open>redirect\<close> drops.
\<close>

definition redirect :: "env \<Rightarrow> string \<Rightarrow> SystemResponse \<Rightarrow> SystemResponse" where
  "redirect E url sr =
     snd (send_call E None
       (sr\<lparr>status := 302, body := BodyText [], headers := headers_set ''Location'' url (headers sr)\<rparr>))"

text \<open>
  Everything that can happen to a response object: a call of one of its
  methods, or the end of a suspended \<open>send\<close>.
\<close>

datatype response_event =
    SetType string
  | SetText body "int option" "string option"
  | SetFile string "int option" "body option"
  | Preset "(string \<times> jsval) list"
  | SetCookie Cookie
  | DeleteCookie string "string option" "string option"
  | Send "(string + Response) option"
  | Redirect string
  | Fulfilled
  | Rejected

fun happen :: "env \<Rightarrow> response_event \<Rightarrow> SystemResponse \<Rightarrow> SystemResponse" where
  "happen E (SetType type) sr = setType type sr"
| "happen E (SetText text st filePath) sr = setText E text st filePath sr"
| "happen E (SetFile filePath st file_data) sr = setFile E filePath st file_data sr"
| "happen E (Preset object) sr = preset object sr"
| "happen E (SetCookie cookie) sr = setCookie E cookie sr"
| "happen E (DeleteCookie name path domain) sr = deleteCookie E name path domain sr"
| "happen E (Send response) sr = snd (send_call E response sr)"
| "happen E (Redirect url) sr = redirect E url sr"
| "happen E Fulfilled sr = send_fulfilled sr"
| "happen E Rejected sr = send_rejected sr"

definition happen_all :: "env \<Rightarrow> response_event list \<Rightarrow> SystemResponse \<Rightarrow> SystemResponse" where
  "happen_all E evs sr = fold (happen E) evs sr"





section \<open>Properties of the client registry\<close>

subsection \<open>The object behind the registry\<close>

lemma obj_set_length: "k \<notin> fst ` set xs \<Longrightarrow> length (obj_set k v xs) = Suc (length xs)"
  by (induction xs) auto

lemma obj_delete_absent: "k \<notin> fst ` set xs \<Longrightarrow> obj_delete k xs = xs"
  by (induction xs) (auto simp: obj_delete_def)

lemma obj_delete_obj_set: "k \<notin> fst ` set xs \<Longrightarrow> obj_delete k (obj_set k v xs) = xs"
  by (induction xs) (auto simp: obj_delete_def obj_delete_absent[unfolded obj_delete_def])

lemma obj_get_obj_set: "obj_get (obj_set k v xs) k' = (if k' = k then Some v else obj_get xs k')"
  by (induction xs) (auto simp: obj_get_def)

lemma obj_get_obj_delete: "obj_get (obj_delete k xs) k' = (if k' = k then None else obj_get xs k')"
  by (induction xs) (auto simp: obj_get_def obj_delete_def)

lemma obj_set_twice: "obj_set k v' (obj_set k v xs) = obj_set k v' xs"
  by (induction xs) auto

lemma obj_get_None_iff: "(obj_get xs k = None) = (k \<notin> set (Object_keys xs))"
  by (simp add: obj_get_def Object_keys_def map_of_eq_None_iff)

subsection \<open>What a call leaves as it is\<close>

lemma WebSocket_send_frame:
  "heap (snd (WebSocket_send h m s)) = heap s \<and> lastInsertedId (snd (WebSocket_send h m s)) = lastInsertedId s
   \<and> nextRef (snd (WebSocket_send h m s)) = nextRef s \<and> list_static (snd (WebSocket_send h m s)) = list_static s
   \<and> readyState (snd (WebSocket_send h m s)) = readyState s"
  by (simp add: WebSocket_send_def Let_def)

lemma send_static_frame:
  "heap (snd (send_static cs m s)) = heap s \<and> lastInsertedId (snd (send_static cs m s)) = lastInsertedId s
   \<and> nextRef (snd (send_static cs m s)) = nextRef s \<and> list_static (snd (send_static cs m s)) = list_static s
   \<and> readyState (snd (send_static cs m s)) = readyState s"
proof (induction cs arbitrary: s)
  case Nil
  show ?case by simp
next
  case (Cons c cs)
  obtain e s' where w: "WebSocket_send (webSocket_p (heap s c)) m s = (e, s')"
    by (cases "WebSocket_send (webSocket_p (heap s c)) m s")
  have f: "heap s' = heap s \<and> lastInsertedId s' = lastInsertedId s \<and> nextRef s' = nextRef s
           \<and> list_static s' = list_static s \<and> readyState s' = readyState s"
    using WebSocket_send_frame [of "webSocket_p (heap s c)" m s] w by simp
  show ?case
  proof (cases e)
    case None
    then show ?thesis using w f Cons.IH [of s'] by simp
  next
    case (Some x)
    then show ?thesis using w f by simp
  qed
qed

lemma setAttributes_frame:
  "id_p (heap (fold (\<lambda>key. setAttribute this key (f key)) ks s) r) = id_p (heap s r)
   \<and> message_p (heap (fold (\<lambda>key. setAttribute this key (f key)) ks s) r) = message_p (heap s r)
   \<and> to_p (heap (fold (\<lambda>key. setAttribute this key (f key)) ks s) r) = to_p (heap s r)
   \<and> lastInsertedId (fold (\<lambda>key. setAttribute this key (f key)) ks s) = lastInsertedId s
   \<and> nextRef (fold (\<lambda>key. setAttribute this key (f key)) ks s) = nextRef s
   \<and> list_static (fold (\<lambda>key. setAttribute this key (f key)) ks s) = list_static s"
  by (induction ks arbitrary: s) (simp_all add: setAttribute_def)

lemma removeAttributes_loop_frame:
  "id_p (heap (snd (removeAttributes_loop this ks acc s)) r) = id_p (heap s r)
   \<and> message_p (heap (snd (removeAttributes_loop this ks acc s)) r) = message_p (heap s r)
   \<and> to_p (heap (snd (removeAttributes_loop this ks acc s)) r) = to_p (heap s r)
   \<and> lastInsertedId (snd (removeAttributes_loop this ks acc s)) = lastInsertedId s
   \<and> nextRef (snd (removeAttributes_loop this ks acc s)) = nextRef s
   \<and> list_static (snd (removeAttributes_loop this ks acc s)) = list_static s"
  by (induction ks arbitrary: acc s) (simp_all add: removeAttribute_def Let_def)

lemma removeAttributes_frame:
  "id_p (heap (snd (removeAttributes this ks s)) r) = id_p (heap s r)
   \<and> message_p (heap (snd (removeAttributes this ks s)) r) = message_p (heap s r)
   \<and> to_p (heap (snd (removeAttributes this ks s)) r) = to_p (heap s r)
   \<and> lastInsertedId (snd (removeAttributes this ks s)) = lastInsertedId s
   \<and> nextRef (snd (removeAttributes this ks s)) = nextRef s
   \<and> list_static (snd (removeAttributes this ks s)) = list_static s"
  unfolding removeAttributes_def by (rule removeAttributes_loop_frame)

lemma step_counter:
  "lastInsertedId (step e s) = (if is_Construct e then js_incr (lastInsertedId s) else lastInsertedId s)"
  by (cases e)
     (simp_all del: send_static.simps add: construct_def Let_def unregister_def setAttribute_def setAttributes_def
        setAttributes_frame removeAttributes_frame removeAttribute_def setMessage_def to_def
        reply_def send_def sendAll_def send_static_frame set_readyState_def)

lemma step_nextRef:
  "nextRef (step e s) = (if is_Construct e then Suc (nextRef s) else nextRef s)"
  by (cases e)
     (simp_all del: send_static.simps add: construct_def Let_def unregister_def setAttribute_def setAttributes_def
        setAttributes_frame removeAttributes_frame removeAttribute_def setMessage_def to_def
        reply_def send_def sendAll_def send_static_frame set_readyState_def)

lemma step_id:
  "r < nextRef s \<Longrightarrow> id_p (heap (step e s) r) = id_p (heap s r)"
  by (cases e)
     (simp_all del: send_static.simps add: construct_def Let_def unregister_def setAttribute_def setAttributes_def
        setAttributes_frame removeAttributes_frame removeAttribute_def setMessage_def to_def
        reply_def send_def sendAll_def send_static_frame set_readyState_def)

lemma run_id: "r < nextRef s \<Longrightarrow> id_p (heap (run evs s) r) = id_p (heap s r)"
  unfolding run_def
proof (induction evs arbitrary: s)
  case Nil
  show ?case by simp
next
  case (Cons e evs)
  have "r < nextRef (step e s)" using Cons.prems by (simp add: step_nextRef)
  then show ?case using Cons.IH [of "step e s"] Cons.prems by (simp add: step_id)
qed

lemma step_message:
  "r < nextRef s \<Longrightarrow> (\<forall>m. e \<noteq> SetMessage r m) \<Longrightarrow>
     message_p (heap (step e s) r) = message_p (heap s r)"
  by (cases e)
     (simp_all del: send_static.simps add: construct_def Let_def unregister_def setAttribute_def
        setAttributes_def setAttributes_frame removeAttributes_frame removeAttribute_def
        setMessage_def to_def reply_def send_def sendAll_def send_static_frame set_readyState_def)

lemma step_to:
  "r < nextRef s \<Longrightarrow> (\<forall>cs. e \<noteq> To r cs) \<Longrightarrow>
     to_p (heap (step e s) r) = to_p (heap s r)"
  by (cases e)
     (simp_all del: send_static.simps add: construct_def Let_def unregister_def setAttribute_def
        setAttributes_def setAttributes_frame removeAttributes_frame removeAttribute_def
        setMessage_def to_def reply_def send_def sendAll_def send_static_frame set_readyState_def)

subsection \<open>What holds of the registry in every state reached\<close>

lemma step_list_static:
  "list_static (step e s) =
     (case e of
        Construct w u v \<Rightarrow> obj_set (lastInsertedId s) (nextRef s) (list_static s)
      | Unregister i \<Rightarrow> obj_delete i (list_static s)
      | _ \<Rightarrow> list_static s)"
  by (cases e)
     (simp_all del: send_static.simps add: construct_def Let_def unregister_def setAttribute_def
        setAttributes_def setAttributes_frame removeAttributes_frame removeAttribute_def
        setMessage_def to_def reply_def send_def sendAll_def send_static_frame set_readyState_def)

lemma obj_set_mem: "x \<in> set (obj_set k v xs) \<Longrightarrow> x = (k, v) \<or> x \<in> set xs"
  by (induction xs) (auto split: if_splits)

lemma obj_set_values: "set (map snd (obj_set k v xs)) \<subseteq> insert v (set (map snd xs))"
  using obj_set_mem [of _ k v xs] by fastforce

lemma obj_set_distinct:
  "distinct (map snd xs) \<Longrightarrow> v \<notin> set (map snd xs) \<Longrightarrow> distinct (map snd (obj_set k v xs))"
proof (induction xs)
  case Nil
  show ?case by simp
next
  case (Cons x xs)
  have "snd x \<notin> set (map snd (obj_set k v xs))"
    using Cons.prems obj_set_values [of k v xs] by auto
  then show ?case using Cons by (cases x) auto
qed

lemma obj_delete_distinct: "distinct (map snd xs) \<Longrightarrow> distinct (map snd (obj_delete k xs))"
  by (simp add: obj_delete_def distinct_map_filter)

lemma step_registered_once: "registered_once s \<Longrightarrow> registered_once (step e s)"
proof (cases e)
  case (Construct w u v)
  assume inv: "registered_once s"
  then have fresh: "nextRef s \<notin> set (map snd (list_static s))"
    by (auto simp: registered_once_def getAllClients_def Object_values_def list_all_iff)
  have d: "distinct (map snd (obj_set (lastInsertedId s) (nextRef s) (list_static s)))"
    using inv fresh
    by (intro obj_set_distinct) (simp_all add: registered_once_def getAllClients_def Object_values_def)
  have old: "\<forall>c \<in> set (map snd (list_static s)). c < nextRef s"
    using inv by (simp add: registered_once_def getAllClients_def Object_values_def list_all_iff)
  have b: "\<forall>c \<in> set (map snd (obj_set (lastInsertedId s) (nextRef s) (list_static s))). c < Suc (nextRef s)"
  proof
    fix c assume "c \<in> set (map snd (obj_set (lastInsertedId s) (nextRef s) (list_static s)))"
    then have "c = nextRef s \<or> c \<in> set (map snd (list_static s))"
      using obj_set_values [of "lastInsertedId s" "nextRef s" "list_static s"] by blast
    then show "c < Suc (nextRef s)" using old by (auto simp: less_Suc_eq)
  qed
  show ?thesis
    using Construct d b
    by (simp add: registered_once_def getAllClients_def Object_values_def list_all_iff
        step_list_static step_nextRef del: step.simps)
next
  case (Unregister i)
  assume inv: "registered_once s"
  have "set (obj_delete i (list_static s)) \<subseteq> set (list_static s)"
    by (auto simp: obj_delete_def)
  then have "\<forall>x \<in> set (obj_delete i (list_static s)). snd x < nextRef s"
    using inv by (auto simp: registered_once_def getAllClients_def Object_values_def list_all_iff)
  then show ?thesis
    using Unregister inv obj_delete_distinct [of "list_static s" i]
    by (simp add: registered_once_def getAllClients_def Object_values_def list_all_iff
        step_list_static step_nextRef del: step.simps)
qed (simp_all add: registered_once_def getAllClients_def Object_values_def
       step_list_static step_nextRef del: step.simps)

lemma run_registered_once: "registered_once s \<Longrightarrow> registered_once (run evs s)"
  unfolding run_def
  by (induction evs arbitrary: s) (simp_all add: step_registered_once del: step.simps)

lemma init_registered_once: "registered_once init"
  by (simp add: registered_once_def init_def getAllClients_def Object_values_def)

lemma run_init_distinct: "distinct (getAllClients (run evs init))"
  using run_registered_once [OF init_registered_once, of evs] by (simp add: registered_once_def)

lemma obj_delete_mem: "x \<in> set (obj_delete k xs) \<Longrightarrow> x \<in> set xs"
  by (simp add: obj_delete_def)

lemma step_keys_below:
  assumes "\<forall>x \<in> set (list_static s). fst x < lastInsertedId s"
    and "is_Construct e \<longrightarrow> lastInsertedId s < 2 ^ 53"
  shows "\<forall>x \<in> set (list_static (step e s)). fst x < lastInsertedId (step e s)"
proof (cases e)
  case (Construct w u v)
  then have c: "lastInsertedId (step e s) = Suc (lastInsertedId s)"
    using assms(2) by (simp add: step_counter js_incr_def del: step.simps)
  have l: "list_static (step e s) = obj_set (lastInsertedId s) (nextRef s) (list_static s)"
    using Construct by (simp add: step_list_static del: step.simps)
  show ?thesis
  proof
    fix x assume "x \<in> set (list_static (step e s))"
    then have "x = (lastInsertedId s, nextRef s) \<or> x \<in> set (list_static s)"
      unfolding l by (rule obj_set_mem)
    then show "fst x < lastInsertedId (step e s)"
      using assms(1) c by (auto simp: less_Suc_eq)
  qed
next
  case (Unregister i)
  then show ?thesis
    using assms(1) obj_delete_mem [of _ i "list_static s"]
    by (auto simp: step_list_static step_counter simp del: step.simps)
qed (use assms(1) in \<open>simp_all add: step_list_static step_counter del: step.simps\<close>)

lemma run_keys_below:
  "\<forall>x \<in> set (list_static s). fst x < lastInsertedId s \<Longrightarrow>
   lastInsertedId s + length (filter is_Construct evs) \<le> 2 ^ 53 \<Longrightarrow>
   \<forall>x \<in> set (list_static (run evs s)). fst x < lastInsertedId (run evs s)"
proof (induction evs arbitrary: s)
  case Nil
  then show ?case by (simp add: run_def)
next
  case (Cons e evs)
  have c: "is_Construct e \<longrightarrow> lastInsertedId s < 2 ^ 53"
    using Cons.prems(2) by auto
  have k: "\<forall>x \<in> set (list_static (step e s)). fst x < lastInsertedId (step e s)"
    using Cons.prems(1) c by (rule step_keys_below)
  have b: "lastInsertedId (step e s) + length (filter is_Construct evs) \<le> 2 ^ 53"
    using Cons.prems(2) c by (auto simp: step_counter js_incr_def simp del: step.simps)
  have "run (e # evs) s = run evs (step e s)" by (simp add: run_def)
  then show ?case using Cons.IH [OF k b] by simp
qed

text \<open>
  In a process the id that the next constructor will take has no entry in the
  registry, as long as the process has constructed at most \<open>2 ^ 53\<close> clients.
\<close>

lemma run_init_fresh_id:
  assumes "length (filter is_Construct evs) \<le> 2 ^ 53"
  shows "getClientById (lastInsertedId (run evs init)) (run evs init) = None"
proof -
  have "\<forall>x \<in> set (list_static (run evs init)). fst x < lastInsertedId (run evs init)"
    using assms by (intro run_keys_below) (simp_all add: init_def)
  then have "lastInsertedId (run evs init) \<notin> fst ` set (list_static (run evs init))"
    by auto
  then show ?thesis
    by (simp add: getClientById_def obj_get_def map_of_eq_None_iff)
qed

subsection \<open>The sequence of ids\<close>

lemma js_incr_funpow: "k \<le> 2 ^ 53 \<Longrightarrow> (js_incr ^^ j) k = min (k + j) (2 ^ 53)"
  by (induction j) (auto simp: js_incr_def min_def)

lemma upt_0_Suc_map: "map f [0..<Suc n] = f 0 # map (\<lambda>j. f (Suc j)) [0..<n]"
proof -
  have "[0..<Suc n] = 0 # map Suc [0..<n]"
    by (simp add: upt_conv_Cons map_Suc_upt del: upt_Suc)
  then show ?thesis by (simp add: comp_def del: upt_Suc)
qed

lemma map_plus_upt: "map (\<lambda>j. k + j) [0..<n] = [k ..< k + n]"
  by (induction n) simp_all

lemma construct_new:
  "fst (construct w u v s) = nextRef s
   \<and> id_p (heap (snd (construct w u v s)) (nextRef s)) = lastInsertedId s"
  by (simp add: construct_def Let_def)

lemma ids_constructed_funpow:
  "ids_constructed evs s =
     map (\<lambda>j. (js_incr ^^ j) (lastInsertedId s)) [0..<length (filter is_Construct evs)]"
proof (induction evs arbitrary: s)
  case Nil
  show ?case by (simp add: ids_constructed_def)
next
  case (Cons e evs)
  let ?s' = "step e s"
  have run: "run (e # evs) s = run evs ?s'" by (simp add: run_def)
  show ?case
  proof (cases "is_Construct e")
    case True
    then obtain w u v where e: "e = Construct w u v" by (cases e) simp_all
    have first: "id_p (heap (run evs ?s') (nextRef s)) = lastInsertedId s"
    proof -
      have "nextRef s < nextRef ?s'" using True by (simp add: step_nextRef)
      then have "id_p (heap (run evs ?s') (nextRef s)) = id_p (heap ?s' (nextRef s))"
        by (rule run_id)
      then show ?thesis using e construct_new [of w u v s] by simp
    qed
    have rest: "ids_constructed evs ?s' =
        map (\<lambda>j. (js_incr ^^ j) (js_incr (lastInsertedId s))) [0..<length (filter is_Construct evs)]"
      using Cons.IH [of ?s'] True by (simp add: step_counter)
    have "constructed (e # evs) s = nextRef s # constructed evs ?s'"
      using e construct_new [of w u v s] by simp
    then have "ids_constructed (e # evs) s = lastInsertedId s # ids_constructed evs ?s'"
      unfolding ids_constructed_def run using first by simp
    also have "\<dots> = map (\<lambda>j. (js_incr ^^ j) (lastInsertedId s)) [0..<Suc (length (filter is_Construct evs))]"
      unfolding rest upt_0_Suc_map by (simp add: funpow_swap1)
    finally show ?thesis using True by simp
  next
    case False
    have "constructed (e # evs) s = constructed evs ?s'"
      using False by (cases e) simp_all
    then have "ids_constructed (e # evs) s = ids_constructed evs ?s'"
      by (simp add: ids_constructed_def run)
    then show ?thesis using Cons.IH [of ?s'] False by (simp add: step_counter)
  qed
qed

lemma ids_constructed_below:
  assumes "lastInsertedId s + length (filter is_Construct evs) \<le> 2 ^ 53 + 1"
  shows "ids_constructed evs s =
           [lastInsertedId s ..< lastInsertedId s + length (filter is_Construct evs)]"
proof -
  let ?n = "length (filter is_Construct evs)"
  let ?k = "lastInsertedId s"
  have "map (\<lambda>j. (js_incr ^^ j) ?k) [0..<?n] = map (\<lambda>j. ?k + j) [0..<?n]"
  proof (rule map_cong [OF refl])
    fix j assume "j \<in> set [0..<?n]"
    then have j: "j < ?n" by simp
    with assms have "?k \<le> 2 ^ 53" and "?k + j \<le> 2 ^ 53" by linarith+
    then show "(js_incr ^^ j) ?k = ?k + j" by (simp add: js_incr_funpow)
  qed
  also have "\<dots> = [?k ..< ?k + ?n]" by (rule map_plus_upt)
  finally show ?thesis by (simp add: ids_constructed_funpow)
qed

lemma run_replicate_counter:
  "lastInsertedId (run (replicate n (Construct w u v)) s) = (js_incr ^^ n) (lastInsertedId s)"
  unfolding run_def
  by (induction n arbitrary: s) (simp_all add: step_counter funpow_swap1 del: step.simps)

subsection \<open>What a send writes\<close>

lemma accepts_cong:
  "heap s' = heap s \<Longrightarrow> readyState s' = readyState s \<Longrightarrow> accepts s' = accepts s"
  by (rule ext) (simp add: accepts_def)

lemma attempted_all: "list_all (accepts s) clients \<Longrightarrow> attempted s clients = clients"
  by (induction clients) (simp_all add: attempted_def)

lemma send_static_result:
  "send_static clients message s
     = (if list_all (accepts s) clients then None else Some InvalidStateError,
        s\<lparr>writes := writes s @ frames s (attempted s clients) message\<rparr>)"
proof (induction clients arbitrary: s)
  case Nil
  show ?case by (simp add: attempted_def frames_def)
next
  case (Cons c cs)
  let ?h = "webSocket_p (heap s c)"
  let ?s' = "s\<lparr>writes := writes s @ [(?h, message)]\<rparr>"
  show ?case
  proof (cases "accepts s c")
    case True
    have acc: "accepts ?s' = accepts s" by (rule accepts_cong) simp_all
    have "send_static (c # cs) message s = send_static cs message ?s'"
      using True by (simp add: WebSocket_send_def accepts_def Let_def)
    then show ?thesis
      using Cons.IH [of ?s'] True acc by (simp add: attempted_def frames_def)
  next
    case False
    then have "send_static (c # cs) message s = (Some InvalidStateError, ?s')"
      by (simp add: WebSocket_send_def accepts_def Let_def)
    then show ?thesis using False by (simp add: attempted_def frames_def)
  qed
qed

subsection \<open>Registering, unregistering and looking up\<close>

lemma run_replicate_fresh:
  "lastInsertedId (run (replicate (2 ^ 53) (Construct w u v)) init) = 2 ^ 53
   \<and> 2 ^ 53 \<notin> fst ` set (list_static (run (replicate (2 ^ 53) (Construct w u v)) init))"
proof -
  let ?s = "run (replicate (2 ^ 53) (Construct w u v)) init"
  have k: "lastInsertedId ?s = 2 ^ 53"
    by (simp add: run_replicate_counter js_incr_funpow init_def)
  have "length (filter is_Construct (replicate (2 ^ 53) (Construct w u v))) \<le> 2 ^ 53"
    by simp
  then have "getClientById (lastInsertedId ?s) ?s = None"
    by (rule run_init_fresh_id)
  then have "2 ^ 53 \<notin> fst ` set (list_static ?s)"
    unfolding k by (simp add: getClientById_def obj_get_def map_of_eq_None_iff)
  with k show ?thesis by simp
qed

lemma construct_twice_at_2_53:
  assumes "lastInsertedId s = 2 ^ 53" and "2 ^ 53 \<notin> fst ` set (list_static s)"
  shows "lastInsertedId (snd (construct w u v s)) = 2 ^ 53
   \<and> getClientById (2 ^ 53) (snd (construct w u v s)) = Some (fst (construct w u v s))
   \<and> concurrentConnections (snd (construct w u v s)) = Suc (concurrentConnections s)
   \<and> concurrentConnections (snd (construct w' u' v' (snd (construct w u v s))))
       = Suc (concurrentConnections s)
   \<and> concurrentConnections
        (unregister (2 ^ 53) (snd (construct w' u' v' (snd (construct w u v s)))))
       = concurrentConnections s"
proof -
  have c: "lastInsertedId (snd (construct w u v s)) = 2 ^ 53"
    using assms(1) by (simp add: construct_def js_incr_def Let_def)
  have l1: "list_static (snd (construct w u v s)) = obj_set (2 ^ 53) (nextRef s) (list_static s)"
    using assms(1) by (simp add: construct_def Let_def)
  have l2: "list_static (snd (construct w' u' v' (snd (construct w u v s))))
      = obj_set (2 ^ 53) (Suc (nextRef s)) (list_static s)"
    using assms(1) by (simp add: construct_def js_incr_def obj_set_twice Let_def)
  have g: "getClientById (2 ^ 53) (snd (construct w u v s)) = Some (fst (construct w u v s))"
    unfolding getClientById_def l1 by (simp add: obj_get_obj_set construct_def Let_def)
  show ?thesis
    using c g assms(2)
    by (simp add: concurrentConnections_def Object_keys_def unregister_def l1 l2 obj_set_length
        obj_delete_obj_set)
qed

text \<open>
  Claim C9, as amended. A connection is registered by its constructor, under the id the
  constructor takes from the counter. When that id has no entry yet, the
  construction adds one entry, found again by \<open>getClientById\<close>, and
  unregistering the new client's id brings \<open>concurrentConnections\<close> back to
  what it was. For every id, \<open>getClientById\<close> returns the absent value
  (\<open>None\<close>, JavaScript's \<open>undefined\<close>) exactly when the registry has no entry
  for the id, and so also after the id has been unregistered; the function has
  no other outcome, an exception in particular. That the next id has no entry
  holds in every state of a process that has constructed at most \<open>2 ^ 53\<close>
  clients.
\<close>

theorem register_unregister_size_getClientById_absent:
  "(getClientById (lastInsertedId s) s = None \<longrightarrow>
      concurrentConnections (snd (construct webSocket url vars s)) = concurrentConnections s + 1 \<and>
      id_p (heap (snd (construct webSocket url vars s)) (fst (construct webSocket url vars s)))
        = lastInsertedId s \<and>
      getClientById (lastInsertedId s) (snd (construct webSocket url vars s))
        = Some (fst (construct webSocket url vars s)) \<and>
      concurrentConnections (unregister (lastInsertedId s) (snd (construct webSocket url vars s)))
        = concurrentConnections s)
   \<and> (getClientById i s = None) = (i \<notin> set (Object_keys (list_static s)))
   \<and> getClientById i (unregister i s) = None
   \<and> (length (filter is_Construct evs) \<le> 2 ^ 53 \<longrightarrow>
        getClientById (lastInsertedId (run evs init)) (run evs init) = None)"
  using run_init_fresh_id [of evs]
  by (auto simp: getClientById_def concurrentConnections_def construct_def unregister_def Let_def
      obj_get_None_iff Object_keys_def obj_set_length obj_delete_obj_set obj_get_obj_set
      obj_get_obj_delete)

theorem register_unregister_size_witness:
  "length (filter is_Construct [Construct 7 ''/ws'' []]) \<le> 2 ^ 53
   \<and> getClientById (lastInsertedId (run [Construct 7 ''/ws'' []] init))
         (run [Construct 7 ''/ws'' []] init) = None
   \<and> concurrentConnections (run [Construct 7 ''/ws'' []] init) = 1
   \<and> concurrentConnections (snd (construct 8 ''/ws'' [] (run [Construct 7 ''/ws'' []] init))) = 2
   \<and> concurrentConnections
        (unregister (lastInsertedId (run [Construct 7 ''/ws'' []] init))
           (snd (construct 8 ''/ws'' [] (run [Construct 7 ''/ws'' []] init)))) = 1
   \<and> getClientById 5 (run [Construct 7 ''/ws'' []] init) = None"
proof -
  let ?s = "run [Construct 7 ''/ws'' []] init"
  have one: "concurrentConnections ?s = 1"
    by (simp add: run_def concurrentConnections_def construct_def init_def Object_keys_def)
  have keys: "Object_keys (list_static ?s) = [0]"
    by (simp add: run_def construct_def init_def Object_keys_def)
  show ?thesis
    using one keys
      register_unregister_size_getClientById_absent
        [of ?s 8 "''/ws''" "[]" 5 "[Construct 7 ''/ws'' []]"]
    by simp
qed

text \<open>
  Claim C9 as it stands fails once the counter has reached \<open>2 ^ 53\<close>, where it
  stays. After \<open>2 ^ 53\<close> constructions in a fresh process a client is
  constructed on socket 7 and gets the id \<open>2 ^ 53\<close>. The connection registered
  next, on socket 8, gets the id \<open>2 ^ 53\<close> as well and takes the entry of the
  client before it, so the registration leaves \<open>concurrentConnections\<close> as it
  is; unregistering it leaves one entry less than there was before it was
  registered.
\<close>

theorem register_unregister_at_2_53_loses_an_entry:
  "lastInsertedId (snd (construct 7 ''/ws'' [] (run (replicate (2 ^ 53) (Construct 0 [] [])) init)))
     = 2 ^ 53
   \<and> getClientById (2 ^ 53)
         (snd (construct 7 ''/ws'' [] (run (replicate (2 ^ 53) (Construct 0 [] [])) init)))
       = Some (fst (construct 7 ''/ws'' [] (run (replicate (2 ^ 53) (Construct 0 [] [])) init)))
   \<and> concurrentConnections
        (snd (construct 8 ''/ws'' []
           (snd (construct 7 ''/ws'' [] (run (replicate (2 ^ 53) (Construct 0 [] [])) init)))))
       = concurrentConnections
           (snd (construct 7 ''/ws'' [] (run (replicate (2 ^ 53) (Construct 0 [] [])) init)))
   \<and> Suc (concurrentConnections
        (unregister (2 ^ 53)
           (snd (construct 8 ''/ws'' []
              (snd (construct 7 ''/ws'' [] (run (replicate (2 ^ 53) (Construct 0 [] [])) init)))))))
       = concurrentConnections
           (snd (construct 7 ''/ws'' [] (run (replicate (2 ^ 53) (Construct 0 [] [])) init)))"
proof -
  let ?s = "run (replicate (2 ^ 53) (Construct 0 [] [])) init"
  have k: "lastInsertedId ?s = 2 ^ 53" and f: "2 ^ 53 \<notin> fst ` set (list_static ?s)"
    using run_replicate_fresh [of 0 "[]" "[]"] by simp_all
  show ?thesis
    using construct_twice_at_2_53 [OF k f, of 7 "''/ws''" "[]" 8 "''/ws''" "[]"]
    by simp
qed

subsection \<open>Client ids\<close>

text \<open>
  Claim C8, as amended. The constructor gives the new client the value of the
  counter (\<open>this.#id = WebSocketClient.lastInsertedId++\<close>) and no call changes
  the id of an existing client. In a run of any calls, unregistrations
  included, that constructs clients while the counter is exact (the counter
  plus the number of constructions is at most \<open>2 ^ 53 + 1\<close>; from a fresh
  process, the first \<open>2 ^ 53 + 1\<close> clients), the ids of the clients
  constructed are the consecutive numbers from the counter's value on, in the
  order of construction: they increase strictly, no two clients share one, and
  the id of a connection that was unregistered meanwhile is not given again.
\<close>

theorem ids_increase_while_counter_exact:
  "id_p (heap (snd (construct webSocket url vars s)) (fst (construct webSocket url vars s)))
     = lastInsertedId s
   \<and> (c < nextRef s \<longrightarrow> id_p (heap (run evs s) c) = id_p (heap s c))
   \<and> (lastInsertedId s + length (filter is_Construct evs) \<le> 2 ^ 53 + 1 \<longrightarrow>
        ids_constructed evs s
          = [lastInsertedId s ..< lastInsertedId s + length (filter is_Construct evs)]
        \<and> sorted_wrt (<) (ids_constructed evs s)
        \<and> distinct (ids_constructed evs s))"
proof -
  have "sorted_wrt (<) [lastInsertedId s ..< lastInsertedId s + length (filter is_Construct evs)]"
    by (simp add: sorted_wrt_upt)
  then show ?thesis
    using construct_new [of webSocket url vars s] run_id [of c s evs]
      ids_constructed_below [of s evs]
    by auto
qed

theorem ids_increase_witness:
  "0 < nextRef (snd (construct 7 ''/a'' [] init))
   \<and> lastInsertedId (snd (construct 7 ''/a'' [] init))
       + length (filter is_Construct [Unregister 0, Construct 8 ''/b'' []]) \<le> 2 ^ 53 + 1
   \<and> id_p (heap (snd (construct 7 ''/a'' [] init)) (fst (construct 7 ''/a'' [] init))) = 0
   \<and> getClientById 0 (run [Unregister 0, Construct 8 ''/b'' []] (snd (construct 7 ''/a'' [] init)))
       = None
   \<and> id_p (heap (run [Unregister 0, Construct 8 ''/b'' []] (snd (construct 7 ''/a'' [] init))) 0) = 0
   \<and> ids_constructed [Unregister 0, Construct 8 ''/b'' []] (snd (construct 7 ''/a'' [] init)) = [1]"
proof -
  let ?s = "snd (construct 7 ''/a'' [] init)"
  have s: "nextRef ?s = 1 \<and> lastInsertedId ?s = 1 \<and> id_p (heap ?s 0) = 0"
    by (simp add: construct_def init_def js_incr_def)
  have gone: "getClientById 0 (run [Unregister 0, Construct 8 ''/b'' []] ?s) = None"
    by (simp add: run_def construct_def unregister_def init_def getClientById_def obj_get_def
        obj_delete_def js_incr_def)
  have first: "id_p (heap (snd (construct 7 ''/a'' [] init)) (fst (construct 7 ''/a'' [] init))) = 0"
    using ids_increase_while_counter_exact [of 7 "''/a''" "[]" init 0 "[]"]
    by (simp add: init_def)
  show ?thesis
    using s gone first
      ids_increase_while_counter_exact
        [of 8 "''/b''" "[]" ?s 0 "[Unregister 0, Construct 8 ''/b'' []]"]
    by simp
qed

text \<open>
  Claim C8 as it stands fails once the counter has reached \<open>2 ^ 53\<close>: after
  \<open>2 ^ 53\<close> constructions in a fresh process the counter is \<open>2 ^ 53\<close>, and the
  next two clients both get the id \<open>2 ^ 53\<close>.
\<close>

theorem ids_repeat_from_2_53_on:
  "lastInsertedId (run (replicate (2 ^ 53) (Construct 0 [] [])) init) = 2 ^ 53
   \<and> ids_constructed [Construct 0 [] [], Construct 0 [] []]
         (run (replicate (2 ^ 53) (Construct 0 [] [])) init) = [2 ^ 53, 2 ^ 53]"
proof -
  let ?s = "run (replicate (2 ^ 53) (Construct 0 [] [])) init"
  have k: "lastInsertedId ?s = 2 ^ 53"
    by (simp add: run_replicate_counter js_incr_funpow init_def)
  have "[0..<2] = [0, Suc 0]" by (simp add: upt_conv_Cons)
  then have "ids_constructed [Construct 0 [] [], Construct 0 [] []] ?s = [2 ^ 53, 2 ^ 53]"
    unfolding ids_constructed_funpow k by (simp add: js_incr_def)
  with k show ?thesis by simp
qed

subsection \<open>Sending\<close>

text \<open>
  Claim C4, as amended. The static \<open>send\<close> writes to the targets in the order
  of the list and stops at the first target whose write throws, which
  \<open>WebSocket.send\<close> does when the socket is not open: the result is the list
  of writes made before the call, followed by one write per target up to and
  including that target (\<open>attempted\<close>), so the earlier writes stand, the
  failing write has been attempted and the later targets get no attempt; the
  exception leaves \<open>send\<close>. When every target's socket is open, every target
  gets its write and \<open>send\<close> returns normally. Nothing but the list of writes
  changes.
\<close>

theorem send_static_stops_at_first_throw:
  "send_static clients message s
     = (if list_all (accepts s) clients then None else Some InvalidStateError,
        s\<lparr>writes := writes s @ frames s (attempted s clients) message\<rparr>)
   \<and> attempted s clients = takeWhile (accepts s) clients @ take 1 (dropWhile (accepts s) clients)
   \<and> (if list_all (accepts s) clients then attempted s clients = clients
       else length (attempted s clients) = Suc (length (takeWhile (accepts s) clients)))"
proof -
  have "\<not> list_all (accepts s) clients \<Longrightarrow> dropWhile (accepts s) clients \<noteq> []"
    by (simp add: list_all_iff)
  then have "\<not> list_all (accepts s) clients \<Longrightarrow>
      length (attempted s clients) = Suc (length (takeWhile (accepts s) clients))"
    by (cases "dropWhile (accepts s) clients") (simp_all add: attempted_def)
  then show ?thesis
    using send_static_result [of clients message s] attempted_all [of s clients]
    by (simp add: attempted_def)
qed

text \<open>
  Claim C4 as it stands fails when a write throws. Two clients are registered,
  the first on socket 7, still connecting, the second on socket 8, open:
  \<open>send([c0, c1], "m")\<close> throws at the first target, and the second target,
  whose socket would take the write, gets no attempt.
\<close>

theorem send_static_failure_skips_later_targets:
  "fst (send_static [0, 1] (Text ''m'')
         (set_readyState 8 OPEN (set_readyState 7 CONNECTING
            (snd (construct 8 ''/ws'' [] (snd (construct 7 ''/ws'' [] init)))))))
     = Some InvalidStateError
   \<and> writes (snd (send_static [0, 1] (Text ''m'')
         (set_readyState 8 OPEN (set_readyState 7 CONNECTING
            (snd (construct 8 ''/ws'' [] (snd (construct 7 ''/ws'' [] init))))))))
     = [(7, Text ''m'')]
   \<and> accepts (set_readyState 8 OPEN (set_readyState 7 CONNECTING
            (snd (construct 8 ''/ws'' [] (snd (construct 7 ''/ws'' [] init)))))) 1"
  by (simp add: construct_def set_readyState_def init_def WebSocket_send_def accepts_def js_incr_def)

text \<open>
  Claim C5, as amended. For two clients whose sockets are open, \<open>send([c1, c2], m)\<close>
  returns normally and adds exactly two writes to those made before: first
  \<open>m\<close> on the socket of \<open>c1\<close>, then \<open>m\<close> on the socket of \<open>c2\<close>; nothing else
  changes. The method \<open>send\<close> of any client, called with the two targets and a
  message such as \<open>"m"\<close> (any message but the empty string), does the same.
  When the two sockets differ, each of them gets exactly one of the new writes.
\<close>

theorem send_two_targets_one_write_each_in_order:
  "accepts s c1 \<and> accepts s c2 \<longrightarrow>
     send_static [c1, c2] message s
       = (None, s\<lparr>writes := writes s @ [(webSocket_p (heap s c1), message),
                                         (webSocket_p (heap s c2), message)]\<rparr>)
     \<and> (payload_truthy message \<longrightarrow>
          send this (Some [c1, c2]) (Some message) s = send_static [c1, c2] message s)
     \<and> (webSocket_p (heap s c1) \<noteq> webSocket_p (heap s c2) \<longrightarrow>
          length (filter (\<lambda>w. fst w = webSocket_p (heap s c1))
                    (drop (length (writes s)) (writes (snd (send_static [c1, c2] message s))))) = 1
          \<and> length (filter (\<lambda>w. fst w = webSocket_p (heap s c2))
                    (drop (length (writes s)) (writes (snd (send_static [c1, c2] message s))))) = 1)"
proof -
  have r: "accepts s c1 \<and> accepts s c2 \<Longrightarrow>
     send_static [c1, c2] message s
       = (None, s\<lparr>writes := writes s @ [(webSocket_p (heap s c1), message),
                                         (webSocket_p (heap s c2), message)]\<rparr>)"
    by (simp add: WebSocket_send_def accepts_def Let_def)
  show ?thesis
  proof (cases "accepts s c1 \<and> accepts s c2")
    case True
    show ?thesis
      unfolding r [OF True] by (simp add: send_def r [OF True] del: send_static.simps)
  next
    case False
    then show ?thesis by blast
  qed
qed

theorem send_two_targets_witness:
  "accepts (set_readyState 8 OPEN (set_readyState 7 OPEN
      (snd (construct 8 ''/ws'' [] (snd (construct 7 ''/ws'' [] init)))))) 0
   \<and> accepts (set_readyState 8 OPEN (set_readyState 7 OPEN
      (snd (construct 8 ''/ws'' [] (snd (construct 7 ''/ws'' [] init)))))) 1
   \<and> payload_truthy (Text ''m'')
   \<and> fst (send 1 (Some [0, 1]) (Some (Text ''m''))
        (set_readyState 8 OPEN (set_readyState 7 OPEN
          (snd (construct 8 ''/ws'' [] (snd (construct 7 ''/ws'' [] init))))))) = None
   \<and> writes (snd (send 1 (Some [0, 1]) (Some (Text ''m''))
        (set_readyState 8 OPEN (set_readyState 7 OPEN
          (snd (construct 8 ''/ws'' [] (snd (construct 7 ''/ws'' [] init)))))))) =
       [(7, Text ''m''), (8, Text ''m'')]
   \<and> length (filter (\<lambda>w. fst w = 7)
        (writes (snd (send_static [0, 1] (Text ''m'')
          (set_readyState 8 OPEN (set_readyState 7 OPEN
            (snd (construct 8 ''/ws'' [] (snd (construct 7 ''/ws'' [] init)))))))))) = 1"
proof -
  let ?s = "set_readyState 8 OPEN (set_readyState 7 OPEN
      (snd (construct 8 ''/ws'' [] (snd (construct 7 ''/ws'' [] init)))))"
  have a: "accepts ?s 0 \<and> accepts ?s 1"
    by (simp add: accepts_def construct_def set_readyState_def init_def js_incr_def)
  have h: "webSocket_p (heap ?s 0) = 7 \<and> webSocket_p (heap ?s 1) = 8 \<and> writes ?s = []"
    by (simp add: construct_def set_readyState_def init_def js_incr_def)
  show ?thesis
    using a h send_two_targets_one_write_each_in_order [of ?s 0 1 "Text ''m''" 1]
    by (simp del: send_static.simps)
qed

text \<open>
  Claim C5 as it stands fails when the socket of the first target is not open.
  Of two registered clients the first is on socket 7, still connecting, the
  second on socket 8, open. The method \<open>send([c0, c1], "m")\<close> of the
  second client ends with the exception of the write on socket 7, the only
  write there is: socket 8 gets none.
\<close>

theorem send_two_targets_second_gets_no_write:
  "fst (send 1 (Some [0, 1]) (Some (Text ''m''))
         (set_readyState 8 OPEN (set_readyState 7 CONNECTING
            (snd (construct 8 ''/ws'' [] (snd (construct 7 ''/ws'' [] init)))))))
     = Some InvalidStateError
   \<and> writes (snd (send 1 (Some [0, 1]) (Some (Text ''m''))
         (set_readyState 8 OPEN (set_readyState 7 CONNECTING
            (snd (construct 8 ''/ws'' [] (snd (construct 7 ''/ws'' [] init))))))))
     = [(7, Text ''m'')]
   \<and> filter (\<lambda>w. fst w = 8)
        (writes (snd (send 1 (Some [0, 1]) (Some (Text ''m''))
           (set_readyState 8 OPEN (set_readyState 7 CONNECTING
              (snd (construct 8 ''/ws'' [] (snd (construct 7 ''/ws'' [] init)))))))))
     = []"
  by (simp add: send_def construct_def set_readyState_def init_def WebSocket_send_def
      js_incr_def)

text \<open>
  Claim C6, as amended. The method \<open>send(targets?, payload?)\<close> writes to
  \<open>targets\<close> when the argument is given and to the stored \<open>#to\<close> list (set by
  \<open>to\<close>) otherwise; it writes \<open>payload\<close> when the argument is given and is not
  the empty string, and the stored \<open>#message\<close> (set by \<open>setMessage\<close>)
  otherwise: the code is \<open>clients || this.#to\<close> and \<open>message || this.#message\<close>.
  \<open>reply(payload?)\<close> is \<open>send([this], payload)\<close>.
\<close>

theorem send_defaults_by_truthiness:
  "send this clients message s
     = send_static (case clients of None \<Rightarrow> to_p (heap s this) | Some cs \<Rightarrow> cs)
         (case message of
            None \<Rightarrow> message_p (heap s this)
          | Some m \<Rightarrow> if m = Text [] then message_p (heap s this) else m) s
   \<and> writes (snd (send this clients message s))
     = writes s @
       frames s (attempted s (case clients of None \<Rightarrow> to_p (heap s this) | Some cs \<Rightarrow> cs))
         (case message of
            None \<Rightarrow> message_p (heap s this)
          | Some m \<Rightarrow> if m = Text [] then message_p (heap s this) else m)
   \<and> reply this message s = send this (Some [this]) message s
   \<and> to_p (heap (to this cs s) this) = cs
   \<and> message_p (heap (setMessage this m s) this) = m"
proof -
  have "payload_truthy x = (x \<noteq> Text [])" for x by (cases x) simp_all
  then show ?thesis
    by (cases clients; cases message)
       (simp_all del: send_static.simps
          add: send_def reply_def to_def setMessage_def send_static_result)
qed

text \<open>
  Claim C6 as it stands (\<open>payload ?? pendingMessage\<close>) fails for the empty
  string: a client on the open socket 7 with the pending message \<open>"old"\<close>
  sends, to itself, the payload \<open>""\<close>; what is written is \<open>"old"\<close>.
\<close>

theorem send_empty_payload_writes_pending:
  "writes (snd (send 0 (Some [0]) (Some (Text []))
      (setMessage 0 (Text ''old'') (set_readyState 7 OPEN (snd (construct 7 ''/ws'' [] init))))))
     = [(7, Text ''old'')]"
  by (simp add: send_def setMessage_def construct_def set_readyState_def init_def
      WebSocket_send_def js_incr_def)

text \<open>
  Claim C7. \<open>setMessage\<close> overwrites \<open>#message\<close> and leaves \<open>#to\<close>; \<open>to\<close>
  overwrites \<open>#to\<close> and leaves \<open>#message\<close>. A \<open>send\<close> (the static one, the
  method, \<open>reply\<close>, \<open>sendAll\<close>) leaves every field of every client as it is,
  these two in particular: sending clears neither. And whatever the call (any
  \<open>event\<close>), the \<open>#message\<close> of an existing client changes only if the call is
  that client's \<open>setMessage\<close>, and its \<open>#to\<close> only if the call is that client's
  \<open>to\<close>.
\<close>

theorem message_and_targets_changed_only_by_their_setters:
  "message_p (heap (setMessage this m s) this) = m
   \<and> to_p (heap (setMessage this m s) this) = to_p (heap s this)
   \<and> to_p (heap (to this cs s) this) = cs
   \<and> message_p (heap (to this cs s) this) = message_p (heap s this)
   \<and> heap (snd (send this clients message s)) = heap s
   \<and> heap (snd (send_static cs m s)) = heap s
   \<and> heap (snd (reply this message s)) = heap s
   \<and> heap (snd (sendAll m s)) = heap s
   \<and> (r < nextRef s \<and> (\<forall>m'. e \<noteq> SetMessage r m') \<longrightarrow>
        message_p (heap (step e s) r) = message_p (heap s r))
   \<and> (r < nextRef s \<and> (\<forall>cs'. e \<noteq> To r cs') \<longrightarrow>
        to_p (heap (step e s) r) = to_p (heap s r))"
  using step_message [of r s e] step_to [of r s e]
  by (simp del: send_static.simps
      add: setMessage_def to_def send_def reply_def sendAll_def send_static_frame)

theorem message_and_targets_witness:
  "0 < nextRef (to 0 [0] (setMessage 0 (Text ''hi'')
         (set_readyState 7 OPEN (snd (construct 7 ''/ws'' [] init)))))
   \<and> (\<forall>m'. SendMethod 0 None None \<noteq> SetMessage 0 m')
   \<and> (\<forall>cs'. SendMethod 0 None None \<noteq> To 0 cs')
   \<and> writes (step (SendMethod 0 None None)
        (to 0 [0] (setMessage 0 (Text ''hi'')
           (set_readyState 7 OPEN (snd (construct 7 ''/ws'' [] init)))))) = [(7, Text ''hi'')]
   \<and> message_p (heap (step (SendMethod 0 None None)
        (to 0 [0] (setMessage 0 (Text ''hi'')
           (set_readyState 7 OPEN (snd (construct 7 ''/ws'' [] init)))))) 0) = Text ''hi''
   \<and> to_p (heap (step (SendMethod 0 None None)
        (to 0 [0] (setMessage 0 (Text ''hi'')
           (set_readyState 7 OPEN (snd (construct 7 ''/ws'' [] init)))))) 0) = [0]"
proof -
  let ?s = "to 0 [0] (setMessage 0 (Text ''hi'')
         (set_readyState 7 OPEN (snd (construct 7 ''/ws'' [] init))))"
  have a: "0 < nextRef ?s \<and> message_p (heap ?s 0) = Text ''hi'' \<and> to_p (heap ?s 0) = [0]"
    by (simp add: to_def setMessage_def set_readyState_def construct_def init_def)
  have w: "writes (step (SendMethod 0 None None) ?s) = [(7, Text ''hi'')]"
    by (simp add: send_def to_def setMessage_def set_readyState_def construct_def init_def
        WebSocket_send_def js_incr_def)
  show ?thesis
    using a w
      message_and_targets_changed_only_by_their_setters
        [where s = "?s" and r = 0 and e = "SendMethod 0 None None"]
    by simp
qed

subsection \<open>Selecting clients by attributes\<close>

lemma getClientsByAttribute_filter:
  "getClientsByAttribute attributes s =
     filter (\<lambda>client. \<exists>attribute\<in>set attributes.
                \<forall>key\<in>set (Object_keys attribute). truthy (getAttribute client key s))
       (getAllClients s)"
  by (simp add: getClientsByAttribute_def getAllClients_def Let_def filter_empty_conv)

text \<open>
  The values that an attribute set gives its keys play no part: two queries
  whose sets have the same keys select the same clients.
\<close>

lemma bex_map_cong:
  assumes "map f xs = map f ys"
  shows "(\<exists>x\<in>set xs. P (f x)) = (\<exists>y\<in>set ys. P (f y))"
proof -
  have "set (map f xs) = set (map f ys)"
    using assms by (rule arg_cong)
  then have i: "f ` set xs = f ` set ys"
    by (simp only: set_map)
  have "(\<exists>x\<in>set xs. P (f x)) = (\<exists>k\<in>f ` set xs. P k)"
    by (rule bex_simps(7) [symmetric])
  also have "\<dots> = (\<exists>k\<in>f ` set ys. P k)"
    by (simp only: i)
  also have "\<dots> = (\<exists>y\<in>set ys. P (f y))"
    by (rule bex_simps(7))
  finally show ?thesis .
qed

lemma getClientsByAttribute_keys_only:
  assumes "map Object_keys attributes = map Object_keys attributes'"
  shows "getClientsByAttribute attributes s = getClientsByAttribute attributes' s"
proof -
  have "(\<exists>attribute\<in>set attributes.
            \<forall>key\<in>set (Object_keys attribute). truthy (getAttribute client key s))
      = (\<exists>attribute\<in>set attributes'.
            \<forall>key\<in>set (Object_keys attribute). truthy (getAttribute client key s))" for client
    using assms
    by (rule bex_map_cong [where P = "\<lambda>ks. \<forall>key\<in>set ks. truthy (getAttribute client key s)"])
  then show ?thesis
    by (simp only: getClientsByAttribute_filter)
qed

text \<open>
  Claim C1. Whatever the registry holds, \<open>getClientsByAttribute({a: 1, b: 2})\<close>
  returns exactly the registered clients whose attributes \<open>a\<close> and \<open>b\<close> both
  have a truthy value (the code tests the client's value of each key of the
  set with \<open>!\<close>), among them every client whose attributes are \<open>a = 1\<close> and
  \<open>b = 2\<close>; \<open>getClientsByAttribute({a: 1}, {b: 2})\<close> returns the union of what
  each set alone returns; and the result is a selection from the registry's
  values, so with each client registered once no client appears twice.
\<close>

theorem getClientsByAttribute_and_within_or_across:
  "set (getClientsByAttribute [[(''a'', JNumber 1), (''b'', JNumber 2)]] s)
     = {client \<in> set (getAllClients s).
          truthy (getAttribute client ''a'' s) \<and> truthy (getAttribute client ''b'' s)}
   \<and> (client \<in> set (getAllClients s) \<and> getAttribute client ''a'' s = JNumber 1
        \<and> getAttribute client ''b'' s = JNumber 2
        \<longrightarrow> client \<in> set (getClientsByAttribute [[(''a'', JNumber 1), (''b'', JNumber 2)]] s))
   \<and> set (getClientsByAttribute [[(''a'', JNumber 1)], [(''b'', JNumber 2)]] s)
     = set (getClientsByAttribute [[(''a'', JNumber 1)]] s)
       \<union> set (getClientsByAttribute [[(''b'', JNumber 2)]] s)
   \<and> (distinct (getAllClients s) \<longrightarrow>
        distinct (getClientsByAttribute [[(''a'', JNumber 1), (''b'', JNumber 2)]] s)
        \<and> distinct (getClientsByAttribute [[(''a'', JNumber 1)], [(''b'', JNumber 2)]] s))
   \<and> distinct (getClientsByAttribute [[(''a'', JNumber 1), (''b'', JNumber 2)]] (run evs init))
   \<and> distinct (getClientsByAttribute [[(''a'', JNumber 1)], [(''b'', JNumber 2)]] (run evs init))"
  using run_init_distinct [of evs]
  by (auto simp: getClientsByAttribute_filter Object_keys_def)

theorem getClientsByAttribute_witness:
  "getAllClients three_clients = [0, 1, 2]
   \<and> getAttribute 0 ''a'' three_clients = JNumber 1
   \<and> getAttribute 0 ''b'' three_clients = JNumber 2
   \<and> getClientsByAttribute [[(''a'', JNumber 1), (''b'', JNumber 2)]] three_clients = [0]
   \<and> getClientsByAttribute [[(''a'', JNumber 1)], [(''b'', JNumber 2)]] three_clients = [0, 1, 2]
   \<and> 0 \<in> set (getClientsByAttribute [[(''a'', JNumber 1), (''b'', JNumber 2)]] three_clients)
   \<and> distinct (getClientsByAttribute [[(''a'', JNumber 1)], [(''b'', JNumber 2)]] three_clients)"
proof -
  have all: "getAllClients three_clients = [0, 1, 2]"
    by (simp add: three_clients_def run_def construct_def init_def getAllClients_def
        Object_values_def setAttributes_def setAttribute_def js_incr_def Object_keys_def)
  have a: "getAttribute 0 ''a'' three_clients = JNumber 1
           \<and> getAttribute 0 ''b'' three_clients = JNumber 2"
    by (simp add: three_clients_def run_def construct_def init_def setAttributes_def
        setAttribute_def js_incr_def Object_keys_def getAttribute_def obj_index_def)
  have both: "getClientsByAttribute [[(''a'', JNumber 1), (''b'', JNumber 2)]] three_clients = [0]"
    by (simp add: three_clients_def run_def construct_def init_def getClientsByAttribute_def
        Object_values_def setAttributes_def setAttribute_def js_incr_def Object_keys_def
        getAttribute_def obj_index_def)
  have either: "getClientsByAttribute [[(''a'', JNumber 1)], [(''b'', JNumber 2)]] three_clients
                  = [0, 1, 2]"
    by (simp add: three_clients_def run_def construct_def init_def getClientsByAttribute_def
        Object_values_def setAttributes_def setAttribute_def js_incr_def Object_keys_def
        getAttribute_def obj_index_def)
  have d: "distinct (getAllClients three_clients)" and m: "0 \<in> set (getAllClients three_clients)"
    using all by simp_all
  show ?thesis
    using all a both either d m
      getClientsByAttribute_and_within_or_across [of three_clients 0 "[]"]
    by simp
qed

section \<open>Properties of the route table\<close>

lemma set_dedup: "set (dedup xs) = set xs"
  by (simp add: dedup_def)

lemma distinct_dedup: "distinct (dedup xs)"
  by (simp add: dedup_def)

lemma fold_upd_same:
  "fold (\<lambda>k m. m(k \<mapsto> e)) ks m k' = (if k' \<in> set ks then Some e else m k')"
  by (induction ks arbitrary: m) auto

lemma register_keys:
  "set (URL (fst (register path aliasURLs hs tbl)))
     = {k \<in> set aliasURLs. \<not> owned_by_other tbl path k} \<union> {path}
   \<and> distinct (URL (fst (register path aliasURLs hs tbl)))
   \<and> path \<in> set (URL (fst (register path aliasURLs hs tbl)))"
  by (auto simp: register_def Let_def URL_def set_dedup distinct_dedup)

lemma register_warned:
  "set (fst (snd (register path aliasURLs hs tbl)))
     = {k \<in> set aliasURLs. k \<noteq> path \<and> owned_by_other tbl path k}"
  by (auto simp: register_def Let_def set_dedup)

lemma register_resolve:
  "resolve k (snd (snd (register path aliasURLs hs tbl)))
     = (if k \<in> set (URL (fst (register path aliasURLs hs tbl)))
        then Some (fst (register path aliasURLs hs tbl)) else resolve k tbl)"
  by (auto simp: register_def Let_def URL_def resolve_def fold_upd_same)

lemma register_fields:
  "canonicalPath (fst (register path aliasURLs hs tbl)) = path
   \<and> handlers (fst (register path aliasURLs hs tbl)) = hs
   \<and> byPath (snd (snd (register path aliasURLs hs tbl))) path
       = Some (fst (register path aliasURLs hs tbl))"
  by (simp add: register_def Let_def)

lemma resolve_empty: "resolve k empty_table = None"
  by (simp add: resolve_def empty_table_def)

lemma owned_by_other_resolve:
  "owned_by_other tbl path k =
     (case resolve k tbl of None \<Rightarrow> False | Some e \<Rightarrow> canonicalPath e \<noteq> path)"
  by (simp add: owned_by_other_def resolve_def)



lemma URL_route_a: "URL (fst route_a) = [''/shared'', ''/a.html'']"
  by (simp add: route_a_def register_def Let_def URL_def dedup_def owned_by_other_def
      empty_table_def)

lemma URL_route_b: "URL (fst route_b) = [''/b2'', ''/b.html'']"
  by (simp add: route_b_def route_a_def register_def Let_def URL_def dedup_def
      owned_by_other_def empty_table_def)


text \<open>
  Claim C2. Whatever the table, the match keys of a newly registered route are
  exactly its aliases that no route of another canonical path owns, and its
  own canonical path; each of these aliases, like the canonical path,
  resolves to the new route. And when an alias \<open>k\<close> of the new route (a key
  other than its canonical path) is owned by an earlier route \<open>owner\<close> of
  another canonical path, then \<open>k\<close> is not among the new route's match keys,
  it is among the keys warned about, and it still resolves to \<open>owner\<close>.
\<close>

theorem register_first_registration_wins:
  "set (URL (fst (register path aliasURLs hs tbl)))
     = {a \<in> set aliasURLs. \<not> owned_by_other tbl path a} \<union> {path}
   \<and> resolve path (snd (snd (register path aliasURLs hs tbl)))
       = Some (fst (register path aliasURLs hs tbl))
   \<and> (\<forall>a \<in> set aliasURLs. \<not> owned_by_other tbl path a \<longrightarrow>
         resolve a (snd (snd (register path aliasURLs hs tbl)))
           = Some (fst (register path aliasURLs hs tbl)))
   \<and> (k \<in> set aliasURLs \<and> k \<noteq> path \<and> resolve k tbl = Some owner
        \<and> canonicalPath owner \<noteq> path \<longrightarrow>
         k \<notin> set (URL (fst (register path aliasURLs hs tbl)))
         \<and> k \<in> set (fst (snd (register path aliasURLs hs tbl)))
         \<and> resolve k (snd (snd (register path aliasURLs hs tbl))) = Some owner)"
proof -
  have owned: "resolve k tbl = Some owner \<Longrightarrow> canonicalPath owner \<noteq> path \<Longrightarrow>
      owned_by_other tbl path k"
    by (simp add: owned_by_other_def resolve_def)
  show ?thesis
    using owned register_keys [of path aliasURLs hs tbl]
      register_warned [of path aliasURLs hs tbl]
    by (auto simp: register_resolve)
qed

theorem register_first_registration_wins_witness:
  "''/shared'' \<in> set [''/shared'', ''/b2'']
   \<and> ''/shared'' \<noteq> ''/b.html''
   \<and> resolve ''/shared'' (snd (snd route_a)) = Some (fst route_a)
   \<and> canonicalPath (fst route_a) \<noteq> ''/b.html''
   \<and> \<not> owned_by_other (snd (snd route_a)) ''/b.html'' ''/b2''
   \<and> URL (fst route_b) = [''/b2'', ''/b.html'']
   \<and> resolve ''/shared'' (snd (snd route_b)) = Some (fst route_a)
   \<and> resolve ''/b2'' (snd (snd route_b)) = Some (fst route_b)
   \<and> resolve ''/b.html'' (snd (snd route_b)) = Some (fst route_b)"
proof -
  have sh: "resolve ''/shared'' (snd (snd route_a)) = Some (fst route_a)"
    using URL_route_a by (simp add: route_a_def register_resolve)
  have pa: "canonicalPath (fst route_a) = ''/a.html''"
    by (simp add: route_a_def register_fields)
  have b2: "resolve ''/b2'' (snd (snd route_a)) = None"
    using URL_route_a by (simp add: route_a_def register_resolve resolve_empty)
  show ?thesis
    using sh pa b2 URL_route_b
      register_first_registration_wins
        [of "''/b.html''" "[''/shared'', ''/b2'']" test_handlers "snd (snd route_a)"
            "''/shared''" "fst route_a"]
    by (simp add: owned_by_other_resolve route_b_def)
qed




section \<open>Properties of the response\<close>


lemma send_call_effect:
  "(fst (send_call E response sr) = Returned) = responded_p sr
   \<and> responded_p (snd (send_call E response sr)) = responded_p sr
   \<and> (fst (send_call E response sr) = Awaiting \<longrightarrow>
        suspended (snd (send_call E response sr)) = Suc (suspended sr)
        \<and> length (respondWith_calls (snd (send_call E response sr)))
            = Suc (length (respondWith_calls sr))
        \<and> butlast (respondWith_calls (snd (send_call E response sr))) = respondWith_calls sr)
   \<and> (fst (send_call E response sr) \<noteq> Awaiting \<longrightarrow>
        respondWith_calls (snd (send_call E response sr)) = respondWith_calls sr)"
  by (auto simp: send_call_def Let_def setText_def split: option.splits sum.splits)





text \<open>
  The flag is set when the await ends, not when \<open>send\<close> is called: a \<open>send\<close>
  that is called while an earlier one (here the one inside \<open>redirect\<close>) still
  waits calls \<open>#respondWith\<close> as well.
\<close>

lemma two_sends_before_completion:
  assumes "fst (send_call E None
             (sr\<lparr>status := 302, body := BodyText [],
                 headers := headers_set ''Location'' url (headers sr)\<rparr>)) = Awaiting"
    and "fst (send_call E response (redirect E url sr)) = Awaiting"
  shows "length (respondWith_calls (happen_all E [Redirect url, Send response] sr))
       = length (respondWith_calls sr) + 2"
proof -
  have "length (respondWith_calls (redirect E url sr)) = Suc (length (respondWith_calls sr))"
    unfolding redirect_def
    using assms(1) send_call_effect
      [of E None "sr\<lparr>status := 302, body := BodyText [],
                      headers := headers_set ''Location'' url (headers sr)\<rparr>"]
    by simp
  then show ?thesis
    using assms(2) send_call_effect [of E response "redirect E url sr"]
    by (simp add: happen_all_def)
qed










end
